theory Spec2Isabelle
  imports Main "HOL-Library.Sublist" "HOL-Library.List_Lexorder"
begin

section \<open>Python values used by \<open>unittestgeneration.py\<close>\<close>

text \<open>
  A Python \<open>str\<close> is a sequence of Unicode code points; it is modelled as a list of
  natural numbers, one per code point, so that \<open>len\<close>, slicing, \<open>split\<close> and the
  ordering used by \<open>sorted\<close> count what Python counts. \<open>py\<close> turns an ASCII literal
  into such a string.
\<close>

type_synonym pystr = "nat list"

definition py :: "string \<Rightarrow> pystr" where
  "py s = map of_char s"

text \<open>
  Exceptions deriving from \<open>Exception\<close>, as values. \<open>Raised msg\<close> stands for any
  exception raised by a collaborator outside the file (the remote service, the
  filesystem), with its message.
\<close>

datatype py_exc = IndexError | TypeError | UnicodeEncodeError | Raised pystr

text \<open>
  \<open>str.isspace\<close> for one code point: the characters of bidirectional type WS, B or S and
  of category Zs (U+0009..U+000D, U+001C..U+0020, U+0085, U+00A0, U+1680,
  U+2000..U+200A, U+2028, U+2029, U+202F, U+205F, U+3000).
\<close>

definition py_isspace :: "nat \<Rightarrow> bool" where
  "py_isspace c =
     ((9 \<le> c \<and> c \<le> 13) \<or> (28 \<le> c \<and> c \<le> 32) \<or> c = 133 \<or> c = 160 \<or> c = 5760
      \<or> (8192 \<le> c \<and> c \<le> 8202) \<or> c = 8232 \<or> c = 8233 \<or> c = 8239 \<or> c = 8287
      \<or> c = 12288)"

text \<open>\<open>s.strip()\<close>: leading and trailing whitespace removed.\<close>

definition py_strip :: "pystr \<Rightarrow> pystr" where
  "py_strip s = rev (dropWhile py_isspace (rev (dropWhile py_isspace s)))"

text \<open>\<open>sub in s\<close> on strings: \<open>sub\<close> occurs in \<open>s\<close> as a contiguous substring.\<close>

fun py_in :: "'a list \<Rightarrow> 'a list \<Rightarrow> bool" where
  "py_in sub [] = (sub = [])"
| "py_in sub (x # xs) = (prefix sub (x # xs) \<or> py_in sub xs)"

text \<open>
  \<open>s.split(sep)\<close>: the pieces between the non-overlapping occurrences of \<open>sep\<close>, found
  from left to right. Python raises \<open>ValueError\<close> for an empty separator; every call
  in the file passes a non-empty literal, and the model never matches an empty one.
\<close>

function py_split :: "'a list \<Rightarrow> 'a list \<Rightarrow> 'a list list" where
  "py_split sep [] = [[]]"
| "py_split sep (x # xs) =
     (if sep \<noteq> [] \<and> prefix sep (x # xs)
      then [] # py_split sep (drop (length sep) (x # xs))
      else (case py_split sep xs of [] \<Rightarrow> [[x]] | h # t \<Rightarrow> (x # h) # t))"
  by pat_completeness auto
termination
  by (relation "measure (\<lambda>(sep, s). length s)") auto

text \<open>\<open>xs[i]\<close> for a non-negative index: \<open>IndexError\<close> out of range.\<close>

definition py_index :: "'a list \<Rightarrow> nat \<Rightarrow> py_exc + 'a" where
  "py_index xs i = (if i < length xs then Inr (xs ! i) else Inl IndexError)"

section \<open>Response extraction\<close>

definition fence :: pystr where
  "fence = py ''```''"

definition fence_python :: pystr where
  "fence_python = py ''```python''"

text \<open>
  \<open>extract_code_from_response(content)\<close>, lines 48 to 60. In the first branch a
  \<open>parts\<close> of length one would fall through to the final \<open>return content.strip()\<close>,
  not to the \<open>elif\<close>; the model keeps that shape.
\<close>

definition extract_code_from_response :: "pystr \<Rightarrow> py_exc + pystr" where
  "extract_code_from_response content =
     (if py_in fence_python content then
        (let parts = py_split fence_python content in
         if length parts > 1 then
           (case py_index parts 1 of
              Inl e \<Rightarrow> Inl e
            | Inr part \<Rightarrow>
                (case py_index (py_split fence part) 0 of
                   Inl e \<Rightarrow> Inl e
                 | Inr code \<Rightarrow> Inr (py_strip code)))
         else Inr (py_strip content))
      else if py_in fence content then
        (let parts = py_split fence content in
         if length parts > 1 then
           (case py_index parts 1 of
              Inl e \<Rightarrow> Inl e
            | Inr code \<Rightarrow> Inr (py_strip code))
         else Inr (py_strip content))
      else Inr (py_strip content))"

text \<open>
  \<open>no_earlier sep pre\<close>: in a text \<open>pre @ sep @ rest\<close>, no occurrence of \<open>sep\<close> starts
  inside \<open>pre\<close>, so the occurrence written out is the first one. (An occurrence
  that starts inside \<open>pre\<close> ends at the latest one character before the end of the
  written \<open>sep\<close>.)
\<close>

definition no_earlier :: "'a list \<Rightarrow> 'a list \<Rightarrow> bool" where
  "no_earlier sep pre = (\<not> py_in sep (pre @ butlast sep))"


section \<open>Path mapping\<close>

text \<open>
  The file builds its paths with \<open>os.sep\<close> and \<open>os.path\<close>. The model is the POSIX
  one (\<open>posixpath\<close>), where \<open>os.sep\<close> is \<open>/\<close> and the extension separator is \<open>.\<close>.
\<close>

definition os_sep :: nat where
  "os_sep = 47"

definition extsep :: nat where
  "extsep = 46"

text \<open>
  \<open>s.rfind(c)\<close> for a one-character \<open>c\<close>: the highest index holding \<open>c\<close>, or \<open>-1\<close>.
\<close>

fun py_rfind :: "'a \<Rightarrow> 'a list \<Rightarrow> int" where
  "py_rfind c [] = - 1"
| "py_rfind c (x # xs) =
     (let r = py_rfind c xs in if 0 \<le> r then r + 1 else if x = c then 0 else - 1)"

text \<open>\<open>s.rstrip(c)\<close> for a one-character \<open>c\<close>.\<close>

definition py_rstrip_chars :: "'a \<Rightarrow> 'a list \<Rightarrow> 'a list" where
  "py_rstrip_chars c s = rev (dropWhile (\<lambda>x. x = c) (rev s))"

text \<open>
  \<open>posixpath.split\<close>, \<open>dirname\<close> and \<open>basename\<close>: cut after the last separator; the
  head loses its trailing separators unless it consists of separators only.
\<close>

definition posix_split :: "pystr \<Rightarrow> pystr \<times> pystr" where
  "posix_split p =
     (let i = nat (py_rfind os_sep p + 1);
          head = take i p;
          tail = drop i p
      in (if head \<noteq> [] \<and> head \<noteq> replicate (length head) os_sep
          then py_rstrip_chars os_sep head else head, tail))"

definition posix_dirname :: "pystr \<Rightarrow> pystr" where
  "posix_dirname p =
     (let i = nat (py_rfind os_sep p + 1);
          head = take i p
      in if head \<noteq> [] \<and> head \<noteq> replicate (length head) os_sep
         then py_rstrip_chars os_sep head else head)"

definition posix_basename :: "pystr \<Rightarrow> pystr" where
  "posix_basename p = (let i = nat (py_rfind os_sep p + 1) in drop i p)"

text \<open>
  \<open>posixpath.splitext\<close> (\<open>genericpath._splitext\<close>): the extension starts at the last
  dot after the last separator, unless only dots precede it in the file name. The
  \<open>while\<close> loop that skips the leading dots is \<open>skip_leading_dots\<close>.
\<close>

function skip_leading_dots :: "pystr \<Rightarrow> nat \<Rightarrow> nat \<Rightarrow> pystr \<times> pystr" where
  "skip_leading_dots p filenameIndex dotIndex =
     (if filenameIndex < dotIndex
      then (if take 1 (drop filenameIndex p) \<noteq> [extsep]
            then (take dotIndex p, drop dotIndex p)
            else skip_leading_dots p (filenameIndex + 1) dotIndex)
      else (p, []))"
  by pat_completeness auto
termination
  by (relation "measure (\<lambda>(p, f, d). d - f)") auto

declare skip_leading_dots.simps [simp del]

definition posix_splitext :: "pystr \<Rightarrow> pystr \<times> pystr" where
  "posix_splitext p =
     (let sepIndex = py_rfind os_sep p;
          dotIndex = py_rfind extsep p
      in if dotIndex > sepIndex
         then skip_leading_dots p (nat (sepIndex + 1)) (nat dotIndex)
         else (p, []))"

text \<open>
  \<open>posixpath.join(a, *ps)\<close>: a component that starts with the separator replaces what
  was joined so far; otherwise it is appended, after a separator when one is missing.
\<close>

definition join_step :: "pystr \<Rightarrow> pystr \<Rightarrow> pystr" where
  "join_step path b =
     (if prefix [os_sep] b then b
      else if path = [] \<or> suffix [os_sep] path then path @ b
      else path @ [os_sep] @ b)"

definition posix_join :: "pystr \<Rightarrow> pystr list \<Rightarrow> pystr" where
  "posix_join a ps = foldl join_step a ps"

text \<open>\<open>to_test_path(py_file)\<close>, lines 62 to 79.\<close>

definition to_test_path :: "pystr \<Rightarrow> pystr" where
  "to_test_path py_file =
     (let rel = (if prefix (py ''src'' @ [os_sep]) py_file
                 then drop (length (py ''src'' @ [os_sep])) py_file
                 else py_file);
          (dirname, filename) = posix_split rel;
          (name, ext) = posix_splitext filename;
          test_filename = py ''test_'' @ name @ ext;
          test_path = posix_join (py ''tests'') [dirname, test_filename]
      in test_path)"

text \<open>The local \<open>rel\<close> of \<open>to_test_path\<close>, named for the proofs.\<close>

definition src_rel :: "pystr \<Rightarrow> pystr" where
  "src_rel py_file =
     (if prefix (py ''src'' @ [os_sep]) py_file
      then drop (length (py ''src'' @ [os_sep])) py_file
      else py_file)"

text \<open>
  A valid relative path, as \<open>glob\<close> builds them from directory entries under a relative
  pattern: not empty, not absolute, without a trailing separator and without an empty
  segment (a doubled separator).
\<close>

definition valid_relative :: "pystr \<Rightarrow> bool" where
  "valid_relative p =
     (p \<noteq> [] \<and> \<not> prefix [os_sep] p \<and> \<not> suffix [os_sep] p
      \<and> \<not> py_in [os_sep, os_sep] p)"

section \<open>Discovery and the orchestrator\<close>

text \<open>
  The lines printed, one constructor for each \<open>print\<close> statement: the five lines of
  the missing-credentials message (lines 89 to 93, numbered), the two lines of the
  warning for an empty discovery (lines 130 and 131), the rule and the title of the
  summary (lines 158, 159 and 163), and the lines that carry a value.
\<close>

datatype line =
    MissingCredentialsLine nat
  | ConnectedMsg
  | ConnectFailedMsg py_exc
  | NoFilesWarning
  | NoFilesHint
  | FoundMsg nat
  | ProcessingMsg pystr
  | CreatedMsg pystr
  | ErrorMsg py_exc
  | SummaryRule
  | SummaryTitle
  | SummarySuccess nat
  | SummaryFailed nat
  | CompleteMsg

text \<open>
  What the run meets outside the file is a parameter of the model, one field per call:
  \<^item> \<open>client_init\<close>: the constructor \<open>AzureOpenAI(...)\<close>; \<open>None\<close> when it returns a
    client, \<open>Some e\<close> when it raises \<open>e\<close>;
  \<^item> \<open>glob_src\<close>, \<open>glob_flat\<close>, \<open>glob_rec\<close>: what the three \<open>glob.glob\<close> calls return;
  \<^item> \<open>set_order\<close>: the order in which the set \<open>candidates\<close>, filled with the given
    insertions, is iterated (Python leaves it open);
  \<^item> \<open>isfile\<close>: \<open>os.path.isfile\<close>;
  \<^item> \<open>read_text\<close>: opening and reading a source file;
  \<^item> \<open>chat_create\<close>: the request made while the given file is processed, for the
    given source text (the prompt is a fixed template around it; model name,
    temperature and token cap are constants): the \<open>message.content\<close> of each of the
    response's \<open>choices\<close>, which may be \<open>None\<close>, or an exception;
  \<^item> \<open>makedirs\<close>, \<open>open_write\<close>, \<open>write_text\<close>: \<open>os.makedirs(d, exist_ok=True)\<close>,
    \<open>open(t, 'w')\<close> and \<open>f.write(code)\<close>; \<open>Some e\<close> when the call raises;
  \<^item> \<open>print_line\<close>: one \<open>print\<close> statement, given by the line it prints; \<open>Some e\<close>
    when it raises (the text cannot be encoded for the console, or the console no
    longer accepts output).

  Exceptions are those deriving from \<open>Exception\<close>, the ones \<open>except Exception\<close>
  catches.
\<close>

record world =
  client_init :: "py_exc option"
  glob_src :: "pystr list"
  glob_flat :: "pystr list"
  glob_rec :: "pystr list"
  set_order :: "pystr list \<Rightarrow> pystr list"
  isfile :: "pystr \<Rightarrow> bool"
  read_text :: "pystr \<Rightarrow> py_exc + pystr"
  chat_create :: "pystr \<Rightarrow> pystr \<Rightarrow> py_exc + pystr option list"
  makedirs :: "pystr \<Rightarrow> py_exc option"
  open_write :: "pystr \<Rightarrow> py_exc option"
  write_text :: "pystr \<Rightarrow> pystr \<Rightarrow> py_exc option"
  print_line :: "line \<Rightarrow> py_exc option"

text \<open>
  The filesystem calls that change something, in the order made: a directory chain
  created, a file opened for writing (created or emptied), a text written to it. The
  file makes no other modifying call; it never removes or renames anything.
\<close>

datatype fs_event = Makedirs pystr | OpenW pystr | WriteText pystr pystr

fun fs_target :: "fs_event \<Rightarrow> pystr" where
  "fs_target (Makedirs d) = d"
| "fs_target (OpenW t) = t"
| "fs_target (WriteText t code) = t"

text \<open>\<open>generate_unit_test(py_file, client, deployment_name)\<close>, lines 6 to 46.\<close>

definition generate_unit_test :: "world \<Rightarrow> pystr \<Rightarrow> py_exc + pystr option" where
  "generate_unit_test w py_file =
     (case read_text w py_file of
        Inl e \<Rightarrow> Inl e
      | Inr py_code \<Rightarrow>
          (case chat_create w py_file py_code of
             Inl e \<Rightarrow> Inl e
           | Inr choices \<Rightarrow> py_index choices 0))"

text \<open>
  \<open>should_skip(path)\<close>, lines 116 to 125, and the discovery around it, lines 109 to
  127.
\<close>

definition excluded_dirs :: "pystr list" where
  "excluded_dirs =
     [py ''tests'', py ''venv'', py ''.venv'', py ''env'', py ''.env'', py ''build'',
      py ''dist'', py ''__pycache__'']"

definition should_skip :: "pystr \<Rightarrow> bool" where
  "should_skip path =
     (let parts = py_split [os_sep] path in
      if list_ex (\<lambda>seg. prefix (py ''.'') seg) parts then True
      else if list_ex (\<lambda>seg. seg \<in> set excluded_dirs) parts then True
      else (let base = posix_basename path in
            if prefix (py ''test_'') base then True else False))"

definition candidates :: "world \<Rightarrow> pystr list" where
  "candidates w = set_order w (glob_src w @ glob_flat w @ glob_rec w)"

definition discover :: "world \<Rightarrow> pystr list" where
  "discover w =
     filter (\<lambda>p. suffix (py ''.py'') p \<and> isfile w p \<and> \<not> should_skip p) (candidates w)"

text \<open>
  The body of the \<open>try\<close> of the loop, lines 142 to 152: the exception caught or the
  test path and code written, with the filesystem calls made until then.
\<close>

definition try_body :: "world \<Rightarrow> pystr \<Rightarrow> (py_exc + pystr \<times> pystr) \<times> fs_event list" where
  "try_body w py_file =
     (case generate_unit_test w py_file of
        Inl e \<Rightarrow> (Inl e, [])
      | Inr None \<Rightarrow> (Inl TypeError, [])
      | Inr (Some test_content) \<Rightarrow>
          (case extract_code_from_response test_content of
             Inl e \<Rightarrow> (Inl e, [])
           | Inr test_code \<Rightarrow>
               (let test_file = to_test_path py_file;
                    d = posix_dirname test_file
                in case makedirs w d of
                     Some e \<Rightarrow> (Inl e, [Makedirs d])
                   | None \<Rightarrow>
                       (case open_write w test_file of
                          Some e \<Rightarrow> (Inl e, [Makedirs d])
                        | None \<Rightarrow>
                            (case write_text w test_file test_code of
                               Some e \<Rightarrow> (Inl e, [Makedirs d, OpenW test_file])
                             | None \<Rightarrow>
                                 (Inr (test_file, test_code),
                                  [Makedirs d, OpenW test_file,
                                   WriteText test_file test_code]))))))"

definition outcome :: "world \<Rightarrow> pystr \<Rightarrow> py_exc + pystr \<times> pystr" where
  "outcome w py_file = fst (try_body w py_file)"

text \<open>The state the run carries: the two counters, the filesystem calls, the lines.\<close>

record run_state =
  success_count :: nat
  error_count :: nat
  fs_log :: "fs_event list"
  console :: "line list"

text \<open>
  One \<open>print\<close> statement: the line is added to the console, or the exception it raises
  is returned with the state as it was. \<open>print_all\<close> runs several in a row and stops at
  the first that raises.
\<close>

definition py_print :: "world \<Rightarrow> line \<Rightarrow> run_state \<Rightarrow> py_exc option \<times> run_state" where
  "py_print w l st =
     (case print_line w l of
        Some e \<Rightarrow> (Some e, st)
      | None \<Rightarrow> (None, st\<lparr>console := console st @ [l]\<rparr>))"

fun print_all :: "world \<Rightarrow> line list \<Rightarrow> run_state \<Rightarrow> py_exc option \<times> run_state" where
  "print_all w [] st = (None, st)"
| "print_all w (l # ls) st =
     (case py_print w l st of
        (Some e, st') \<Rightarrow> (Some e, st')
      | (None, st') \<Rightarrow> print_all w ls st')"

text \<open>
  The handler of the loop, lines 153 to 155: its \<open>print\<close> comes first, and an exception
  it raises leaves the handler, and the loop, uncaught.
\<close>

definition handle_failure :: "world \<Rightarrow> py_exc \<Rightarrow> run_state \<Rightarrow> py_exc option \<times> run_state" where
  "handle_failure w e st =
     (case py_print w (ErrorMsg e) st of
        (Some e', st') \<Rightarrow> (Some e', st')
      | (None, st') \<Rightarrow> (None, st'\<lparr>error_count := error_count st' + 1\<rparr>))"

text \<open>
  One pass of the loop body, lines 140 to 155. The \<open>print\<close> of line 140 stands before
  the \<open>try\<close>, so its exception is not caught; the \<open>print\<close> of line 151 stands inside
  it, after the write, so its exception is handled as a failure of the file. The
  result is the exception that leaves the loop, if any, and the state.
\<close>

definition process_file :: "world \<Rightarrow> pystr \<Rightarrow> run_state \<Rightarrow> py_exc option \<times> run_state" where
  "process_file w py_file st =
     (case py_print w (ProcessingMsg py_file) st of
        (Some e, st1) \<Rightarrow> (Some e, st1)
      | (None, st1) \<Rightarrow>
          (case try_body w py_file of
             (Inl e, evs) \<Rightarrow> handle_failure w e (st1\<lparr>fs_log := fs_log st1 @ evs\<rparr>)
           | (Inr (test_file, test_code), evs) \<Rightarrow>
               (case py_print w (CreatedMsg test_file) (st1\<lparr>fs_log := fs_log st1 @ evs\<rparr>) of
                  (Some e, st2) \<Rightarrow> handle_failure w e st2
                | (None, st2) \<Rightarrow> (None, st2\<lparr>success_count := success_count st2 + 1\<rparr>))))"

text \<open>The loop \<open>for py_file in sorted(py_files)\<close>, lines 139 to 155.\<close>

fun process_files :: "world \<Rightarrow> pystr list \<Rightarrow> run_state \<Rightarrow> py_exc option \<times> run_state" where
  "process_files w [] st = (None, st)"
| "process_files w (py_file # rest) st =
     (case process_file w py_file st of
        (Some e, st') \<Rightarrow> (Some e, st')
      | (None, st') \<Rightarrow> process_files w rest st')"

text \<open>
  The three literals of \<open>main\<close>, lines 83 to 85. The key is a credential: its 84
  characters are not repeated here, only their number, which is all the check of
  line 88 reads.
\<close>

definition endpoint :: pystr where
  "endpoint = py ''https://projectpulselab.openai.azure.com/''"

definition api_key :: pystr where
  "api_key = replicate 84 (of_char CHR ''*'')"

definition deployment :: pystr where
  "deployment = py ''gpt-4.1-01''"

text \<open>Truth value of a string, and \<open>all\<close> over truth values.\<close>

definition truthy :: "pystr \<Rightarrow> bool" where
  "truthy s = (s \<noteq> [])"

definition py_all :: "bool list \<Rightarrow> bool" where
  "py_all bs = list_all (\<lambda>b. b) bs"

definition credentials_missing :: bool where
  "credentials_missing = (\<not> py_all [truthy endpoint, truthy api_key, truthy deployment])"

text \<open>
  Where \<open>main\<close> ends: one of the four \<open>sys.exit\<close> calls, its last line, or an
  exception that nothing catches, on which the interpreter prints a traceback and
  exits with status 1.
\<close>

datatype exit_point = ExitMissingCredentials | ExitConnectFailed | ExitNoFiles
  | ExitFailures | ReturnComplete | ExitUncaught

record run =
  exit_code :: nat
  exit_at :: exit_point
  final :: run_state

definition uncaught :: "run_state \<Rightarrow> run" where
  "uncaught st = \<lparr>exit_code = 1, exit_at = ExitUncaught, final = st\<rparr>"

text \<open>The handler of lines 104 to 106.\<close>

definition connect_failed :: "world \<Rightarrow> py_exc \<Rightarrow> run_state \<Rightarrow> run" where
  "connect_failed w e st =
     (case py_print w (ConnectFailedMsg e) st of
        (Some e', st') \<Rightarrow> uncaught st'
      | (None, st') \<Rightarrow> \<lparr>exit_code = 1, exit_at = ExitConnectFailed, final = st'\<rparr>)"

text \<open>The lines of the summary, lines 158 to 163.\<close>

definition summary_lines :: "run_state \<Rightarrow> line list" where
  "summary_lines st =
     [SummaryRule, SummaryTitle, SummarySuccess (success_count st)]
     @ (if error_count st > 0 then [SummaryFailed (error_count st)] else [])
     @ [SummaryRule]"

text \<open>\<open>main()\<close> from discovery on, lines 109 to 168.\<close>

definition run_batch :: "world \<Rightarrow> run_state \<Rightarrow> run" where
  "run_batch w st0 =
     (let py_files = discover w in
      if py_files = [] then
        (case print_all w [NoFilesWarning, NoFilesHint] st0 of
           (Some e, st) \<Rightarrow> uncaught st
         | (None, st) \<Rightarrow> \<lparr>exit_code = 0, exit_at = ExitNoFiles, final = st\<rparr>)
      else
        (case py_print w (FoundMsg (length py_files)) st0 of
           (Some e, st) \<Rightarrow> uncaught st
         | (None, st1) \<Rightarrow>
             (case process_files w (sort py_files) st1 of
                (Some e, st) \<Rightarrow> uncaught st
              | (None, st2) \<Rightarrow>
                  (case print_all w (summary_lines st2) st2 of
                     (Some e, st) \<Rightarrow> uncaught st
                   | (None, st3) \<Rightarrow>
                       if error_count st3 > 0 then
                         \<lparr>exit_code = 1, exit_at = ExitFailures, final = st3\<rparr>
                       else
                         (case py_print w CompleteMsg st3 of
                            (Some e, st) \<Rightarrow> uncaught st
                          | (None, st4) \<Rightarrow>
                              \<lparr>exit_code = 0, exit_at = ReturnComplete,
                               final = st4\<rparr>)))))"

text \<open>
  \<open>main()\<close>, lines 81 to 168. The \<open>print\<close> of line 103 stands inside the \<open>try\<close> of lines
  97 to 106, so an exception it raises is handled like one of the constructor.
\<close>

definition main :: "world \<Rightarrow> run" where
  "main w =
     (let st0 = \<lparr>success_count = 0, error_count = 0, fs_log = [], console = []\<rparr> in
      if credentials_missing then
        (case print_all w (map MissingCredentialsLine [1, 2, 3, 4, 5]) st0 of
           (Some e, st) \<Rightarrow> uncaught st
         | (None, st) \<Rightarrow> \<lparr>exit_code = 1, exit_at = ExitMissingCredentials, final = st\<rparr>)
      else
        (case client_init w of
           Some e \<Rightarrow> connect_failed w e st0
         | None \<Rightarrow>
             (case py_print w ConnectedMsg st0 of
                (Some e, st) \<Rightarrow> connect_failed w e st
              | (None, st1) \<Rightarrow> run_batch w st1)))"




text \<open>A path at or under the destination root \<open>tests\<close>.\<close>

definition under_tests :: "pystr \<Rightarrow> bool" where
  "under_tests t = (t = py ''tests'' \<or> prefix (py ''tests/'') t)"


definition globs_relative :: "world \<Rightarrow> bool" where
  "globs_relative w = list_all valid_relative (candidates w)"







section \<open>Example runs\<close>

text \<open>
  End-to-end scenario 3: two source files under \<open>src\<close>, found by two of the three
  searches; the request for \<open>src/calc.py\<close> raises, the one for \<open>src/util.py\<close> answers
  with a fenced block. A test file and a hidden file lie beside them.
\<close>

definition scenario_world :: world where
  "scenario_world =
     \<lparr>client_init = None,
      glob_src = [py ''src/util.py'', py ''src/calc.py'', py ''src/test_calc.py''],
      glob_flat = [],
      glob_rec = [py ''src/util.py'', py ''src/calc.py'', py ''src/test_calc.py'',
                  py ''tests/test_util.py'', py ''build/lib/calc.py''],
      set_order = remdups,
      isfile = (\<lambda>p. True),
      read_text = (\<lambda>p. Inr (py ''x = 1'')),
      chat_create = (\<lambda>p code. if p = py ''src/calc.py'' then Inl (Raised (py ''timeout''))
                               else Inr [Some (py ''```python pass ```'')]),
      makedirs = (\<lambda>d. None),
      open_write = (\<lambda>t. None),
      write_text = (\<lambda>t code. None),
      print_line = (\<lambda>l. None)\<rparr>"





section \<open>Properties of the string operations\<close>

lemma py_split_nonempty: "py_split sep s \<noteq> []"
  by (induction sep s rule: py_split.induct) (auto split: list.splits)

lemma py_in_iff: "py_in sub s \<longleftrightarrow> (\<exists>a b. s = a @ sub @ b)"
proof (induction s)
  case Nil
  then show ?case by auto
next
  case (Cons x xs)
  show ?case
  proof
    assume "py_in sub (x # xs)"
    then consider "prefix sub (x # xs)" | "py_in sub xs" by auto
    then show "\<exists>a b. x # xs = a @ sub @ b"
    proof cases
      case 1
      then obtain b where "x # xs = sub @ b" by (auto simp: prefix_def)
      then have "x # xs = [] @ sub @ b" by simp
      then show ?thesis by blast
    next
      case 2
      with Cons obtain a b where "xs = a @ sub @ b" by auto
      then have "x # xs = (x # a) @ sub @ b" by simp
      then show ?thesis by blast
    qed
  next
    assume "\<exists>a b. x # xs = a @ sub @ b"
    then obtain a b where ab: "x # xs = a @ sub @ b" by blast
    show "py_in sub (x # xs)"
    proof (cases a)
      case Nil
      with ab have "prefix sub (x # xs)" by (simp add: prefix_def)
      then show ?thesis by simp
    next
      case (Cons y a')
      with ab have "xs = a' @ sub @ b" by simp
      with Cons.IH have "py_in sub xs" by blast
      then show ?thesis by simp
    qed
  qed
qed

lemma py_split_absent: "\<not> py_in sep s \<Longrightarrow> py_split sep s = [s]"
  by (induction s) auto

lemma py_split_first:
  assumes "sep \<noteq> []" and "no_earlier sep pre"
  shows "py_split sep (pre @ sep @ rest) = pre # py_split sep rest"
  using assms(2)
proof (induction pre)
  case Nil
  from assms(1) obtain c cs where sep: "sep = c # cs" by (cases sep) auto
  then show ?case by simp
next
  case (Cons x pre)
  obtain bs l where sep: "sep = bs @ [l]"
    using assms(1) by (cases sep rule: rev_cases) auto
  have np: "\<not> prefix sep (x # pre @ sep @ rest)"
  proof
    assume "prefix sep (x # pre @ sep @ rest)"
    then have "prefix sep ((x # pre @ bs) @ (l # rest))"
      by (simp add: sep)
    then consider "prefix sep (x # pre @ bs)"
      | us where "sep = (x # pre @ bs) @ us"
      unfolding prefix_append by blast
    then have "prefix sep (x # pre @ bs)"
    proof cases
      case 1
      then show ?thesis .
    next
      case 2
      then have "length sep = length (x # pre @ bs) + length us" 
        by (metis length_append)
      then have "us = []" by (simp add: sep)
      with 2 show ?thesis by simp
    qed
    with Cons.prems show False by (simp add: no_earlier_def sep)
  qed
  from Cons.prems have "no_earlier sep pre" by (simp add: no_earlier_def)
  with Cons.IH have "py_split sep (pre @ sep @ rest) = pre # py_split sep rest" .
  with np show ?case by simp
qed


lemma py_in_here: "py_in sep (pre @ sep @ rest)"
  unfolding py_in_iff by blast

lemma fence_nonempty: "fence \<noteq> []" "fence_python \<noteq> []"
  by (simp_all add: fence_def fence_python_def py_def)

lemma fence_in_fence_python: "py_in fence s" if "py_in fence_python s"
proof -
  from that obtain a b where "s = a @ fence_python @ b"
    unfolding py_in_iff by blast
  moreover have "fence_python = fence @ py ''python''"
    by (simp add: fence_def fence_python_def py_def)
  ultimately have "s = a @ fence @ (py ''python'' @ b)" by simp
  then show ?thesis unfolding py_in_iff by blast
qed

lemma extract_total: "\<exists>code. extract_code_from_response content = Inr code"
  using py_split_nonempty[of fence]
  by (auto simp: extract_code_from_response_def py_index_def Let_def)



section \<open>Properties of the response extractor\<close>

lemma py_split_hd_skip:
  assumes "\<forall>k<length u. \<not> prefix sep (drop k (u @ v))"
  shows "hd (py_split sep (u @ v)) = u @ hd (py_split sep v)"
  using assms
proof (induction u)
  case Nil
  then show ?case by simp
next
  case (Cons x u)
  from Cons.prems have "\<not> prefix sep (drop 0 ((x # u) @ v))" by blast
  then have np: "\<not> prefix sep (x # u @ v)" by simp
  have "\<forall>k<length u. \<not> prefix sep (drop k (u @ v))"
  proof (intro allI impI)
    fix k assume "k < length u"
    then have "Suc k < length (x # u)" by simp
    with Cons.prems have "\<not> prefix sep (drop (Suc k) ((x # u) @ v))" by blast
    then show "\<not> prefix sep (drop k (u @ v))" by simp
  qed
  with Cons.IH have ih: "hd (py_split sep (u @ v)) = u @ hd (py_split sep v)" .
  obtain h t where ht: "py_split sep (u @ v) = h # t"
    using py_split_nonempty[of sep "u @ v"] by (cases "py_split sep (u @ v)") auto
  with np ih show ?case by simp
qed

lemma no_earlier_not_in: "no_earlier sep s \<Longrightarrow> \<not> py_in sep s"
  unfolding no_earlier_def py_in_iff by (metis append.assoc)

lemma no_earlier_drop:
  assumes "no_earlier fence body" and "k < length body"
  shows "\<not> prefix fence (drop k body @ fence @ post)"
proof
  assume p: "prefix fence (drop k body @ fence @ post)"
  from assms(2) obtain c cs where d: "drop k body = c # cs"
    by (cases "drop k body") auto
  have bl: "butlast fence = [96, 96]" and f: "fence = [96, 96, 96]"
    by (simp_all add: fence_def py_def)
  from p have "prefix fence (drop k body @ butlast fence)"
    unfolding d bl f by (cases cs; cases "tl cs") auto
  then obtain r where "drop k body @ butlast fence = fence @ r"
    by (auto simp: prefix_def)
  then have "body @ butlast fence = take k body @ fence @ r"
    by (metis append.assoc append_take_drop_id)
  then have "py_in fence (body @ butlast fence)"
    unfolding py_in_iff by blast
  with assms(1) show False by (simp add: no_earlier_def)
qed

lemma hd_split_tagged_rest:
  assumes "no_earlier fence body"
    and "\<not> prefix (py ''`python'') post" and "\<not> prefix (py ''``python'') post"
  shows "hd (py_split fence (hd (py_split fence_python (body @ fence @ post)))) = body"
proof -
  have nb: "\<forall>k<length body. \<not> prefix fence_python (drop k (body @ fence @ post))"
  proof (intro allI impI)
    fix k assume k: "k < length body"
    have "\<not> prefix fence (drop k body @ fence @ post)"
      using assms(1) k by (rule no_earlier_drop)
    moreover have "prefix fence fence_python"
      by (simp add: fence_def fence_python_def py_def)
    ultimately have "\<not> prefix fence_python (drop k body @ fence @ post)"
      using prefix_order.trans by blast
    with k show "\<not> prefix fence_python (drop k (body @ fence @ post))" by simp
  qed
  then have h: "hd (py_split fence_python (body @ fence @ post)) =
                 body @ hd (py_split fence_python (fence @ post))"
    by (rule py_split_hd_skip)
  have nf: "py_split fence body = [body]"
    using assms(1) by (intro py_split_absent no_earlier_not_in)
  show ?thesis
  proof (cases "prefix (py ''python'') post")
    case True
    then obtain post' where "post = py ''python'' @ post'" by (auto simp: prefix_def)
    then have "fence @ post = [] @ fence_python @ post'"
      by (simp add: fence_def fence_python_def py_def)
    moreover have "no_earlier fence_python []"
      by (simp add: no_earlier_def fence_python_def py_def)
    ultimately have "py_split fence_python (fence @ post) = [] # py_split fence_python post'"
      using py_split_first[OF fence_nonempty(2)] by metis
    with h nf show ?thesis by simp
  next
    case False
    have "\<forall>k<length fence. \<not> prefix fence_python (drop k (fence @ post))"
    proof (intro allI impI)
      fix k assume "k < length fence"
      then have "k = 0 \<or> k = 1 \<or> k = 2" by (auto simp: fence_def py_def)
      then show "\<not> prefix fence_python (drop k (fence @ post))"
        using False assms(2,3) by (auto simp: fence_def fence_python_def py_def)
    qed
    then have "hd (py_split fence_python (fence @ post)) = fence @ hd (py_split fence_python post)"
      by (rule py_split_hd_skip)
    with h have "hd (py_split fence_python (body @ fence @ post)) =
                   body @ fence @ hd (py_split fence_python post)" by simp
    moreover have "py_split fence (body @ fence @ hd (py_split fence_python post)) =
                     body # py_split fence (hd (py_split fence_python post))"
      using fence_nonempty(1) assms(1) by (rule py_split_first)
    ultimately show ?thesis by simp
  qed
qed

lemma extract_tagged_parts:
  assumes "no_earlier fence_python pre"
  shows "extract_code_from_response (pre @ fence_python @ rest) =
           Inr (py_strip (hd (py_split fence (hd (py_split fence_python rest)))))"
proof -
  have "py_split fence_python (pre @ fence_python @ rest) = pre # py_split fence_python rest"
    using assms by (rule py_split_first[OF fence_nonempty(2)])
  moreover obtain h t where "py_split fence_python rest = h # t"
    using py_split_nonempty[of fence_python rest] by (cases "py_split fence_python rest") auto
  moreover obtain h' t' where "py_split fence h = h' # t'"
    using py_split_nonempty[of fence h] by (cases "py_split fence h") auto
  ultimately show ?thesis
    by (simp add: extract_code_from_response_def py_in_here py_index_def Let_def)
qed

lemma extract_tagged_block:
  assumes "no_earlier fence_python pre" and "no_earlier fence body"
    and "\<not> prefix (py ''`python'') post" and "\<not> prefix (py ''``python'') post"
  shows "extract_code_from_response (pre @ fence_python @ body @ fence @ post) =
           Inr (py_strip body)"
  using extract_tagged_parts[OF assms(1)] hd_split_tagged_rest[OF assms(2,3,4)] by simp

lemma extract_unclosed:
  assumes "no_earlier fence_python pre" and "\<not> py_in fence rest"
  shows "extract_code_from_response (pre @ fence_python @ rest) = Inr (py_strip rest)"
proof -
  from assms(2) have "\<not> py_in fence_python rest"
    using fence_in_fence_python by blast
  then have "py_split fence_python rest = [rest]" by (rule py_split_absent)
  moreover from assms(2) have "py_split fence rest = [rest]" by (rule py_split_absent)
  ultimately show ?thesis using extract_tagged_parts[OF assms(1), of rest] by simp
qed

lemma extract_plain:
  assumes "\<not> py_in fence content"
  shows "extract_code_from_response content = Inr (py_strip content)"
  using assms fence_in_fence_python[of content]
  by (auto simp: extract_code_from_response_def)

section \<open>Properties of the path functions\<close>

lemma py_rfind_cases:
  "(c \<notin> set s \<and> py_rfind c s = - 1)
   \<or> (\<exists>Y f. s = Y @ c # f \<and> c \<notin> set f \<and> py_rfind c s = int (length Y))"
proof (induction s)
  case Nil
  then show ?case by simp
next
  case (Cons x s)
  from Cons.IH consider "c \<notin> set s" "py_rfind c s = - 1"
    | Y f where "s = Y @ c # f" "c \<notin> set f" "py_rfind c s = int (length Y)"
    by blast
  then show ?case
  proof cases
    case 1
    show ?thesis
    proof (cases "x = c")
      case True
      with 1 have "x # s = [] @ c # s \<and> c \<notin> set s \<and> py_rfind c (x # s) = int (length ([]::'a list))"
        by simp
      then show ?thesis by blast
    next
      case False
      with 1 show ?thesis by simp
    qed
  next
    case 2
    then have "x # s = (x # Y) @ c # f \<and> c \<notin> set f \<and> py_rfind c (x # s) = int (length (x # Y))"
      by simp
    then show ?thesis by blast
  qed
qed

lemma py_rfind_absent: "c \<notin> set s \<Longrightarrow> py_rfind c s = - 1"
  using py_rfind_cases[of c s] by auto

lemma py_rfind_last: "c \<notin> set f \<Longrightarrow> py_rfind c (Y @ c # f) = int (length Y)"
  by (induction Y) (simp_all add: py_rfind_absent Let_def)

lemma posix_basename_absent: "os_sep \<notin> set f \<Longrightarrow> posix_basename f = f"
  by (simp add: posix_basename_def py_rfind_absent)

lemma posix_basename_last: "os_sep \<notin> set f \<Longrightarrow> posix_basename (Y @ os_sep # f) = f"
  by (simp add: posix_basename_def py_rfind_last nat_add_distrib)

lemma posix_basename_cases:
  "(os_sep \<notin> set p \<and> posix_basename p = p)
   \<or> (\<exists>Y. p = Y @ os_sep # posix_basename p \<and> os_sep \<notin> set (posix_basename p))"
proof -
  from py_rfind_cases[of os_sep p]
  consider "os_sep \<notin> set p"
    | Y f where "p = Y @ os_sep # f" "os_sep \<notin> set f"
    by blast
  then show ?thesis
  proof cases
    case 1
    then show ?thesis by (simp add: posix_basename_absent)
  next
    case 2
    then have "posix_basename p = f" by (simp add: posix_basename_last)
    with 2 have "p = Y @ os_sep # posix_basename p \<and> os_sep \<notin> set (posix_basename p)"
      by simp
    then show ?thesis by blast
  qed
qed

lemma posix_basename_no_sep: "os_sep \<notin> set (posix_basename p)"
  using posix_basename_cases[of p] by auto

lemma posix_split_snd: "snd (posix_split p) = posix_basename p"
  by (simp add: posix_split_def posix_basename_def Let_def)

lemma posix_split_fst: "fst (posix_split p) = posix_dirname p"
  by (simp add: posix_split_def posix_dirname_def Let_def)

lemma skip_leading_dots_concat:
  "fst (skip_leading_dots p i j) @ snd (skip_leading_dots p i j) = p"
proof (induction p i j rule: skip_leading_dots.induct)
  case (1 p i j)
  show ?case
  proof (cases "i < j \<and> take 1 (drop i p) = [extsep]")
    case True
    then have "skip_leading_dots p i j = skip_leading_dots p (i + 1) j"
      by (subst skip_leading_dots.simps) simp
    with True "1.IH" show ?thesis by simp
  next
    case False
    then have "skip_leading_dots p i j = (take j p, drop j p) \<or> skip_leading_dots p i j = (p, [])"
      by (subst (1 2) skip_leading_dots.simps) auto
    then show ?thesis by auto
  qed
qed

lemma posix_splitext_concat: "fst (posix_splitext p) @ snd (posix_splitext p) = p"
  by (simp add: posix_splitext_def Let_def skip_leading_dots_concat)

lemma posix_join_ends:
  assumes "a \<noteq> []" and "\<not> prefix [os_sep] f"
  shows "\<exists>Y. posix_join a [d, f] = Y @ os_sep # f"
proof -
  define path where "path = join_step a d"
  have ne: "path \<noteq> []"
    using assms(1) by (auto simp: path_def join_step_def)
  have j: "posix_join a [d, f] = join_step path f"
    by (simp add: posix_join_def path_def)
  show ?thesis
  proof (cases "suffix [os_sep] path")
    case True
    then obtain Y where "path = Y @ [os_sep]" by (auto simp: suffix_def)
    with j assms(2) have "posix_join a [d, f] = Y @ os_sep # f"
      by (simp add: join_step_def)
    then show ?thesis by blast
  next
    case False
    with j assms(2) ne have "posix_join a [d, f] = path @ os_sep # f"
      by (simp add: join_step_def)
    then show ?thesis by blast
  qed
qed

lemma to_test_path_unfold:
  "to_test_path p =
     posix_join (py ''tests'')
       [posix_dirname (src_rel p), py ''test_'' @ posix_basename (src_rel p)]"
proof -
  obtain name ext where ne: "posix_splitext (posix_basename (src_rel p)) = (name, ext)"
    by (cases "posix_splitext (posix_basename (src_rel p))") auto
  then have "name @ ext = posix_basename (src_rel p)"
    using posix_splitext_concat[of "posix_basename (src_rel p)"] by simp
  moreover have "posix_split (src_rel p) = (posix_dirname (src_rel p), posix_basename (src_rel p))"
    using posix_split_fst[of "src_rel p"] posix_split_snd[of "src_rel p"]
    by (cases "posix_split (src_rel p)") simp
  ultimately show ?thesis
    using ne by (simp add: to_test_path_def src_rel_def Let_def)
qed

lemma posix_basename_src_rel: "posix_basename (src_rel p) = posix_basename p"
proof (cases "prefix (py ''src'' @ [os_sep]) p")
  case False
  then show ?thesis by (simp add: src_rel_def)
next
  case True
  then obtain rel where p: "p = py ''src'' @ os_sep # rel"
    by (auto simp: prefix_def)
  then have rel: "src_rel p = rel" by (simp add: src_rel_def py_def)
  have "posix_basename p = posix_basename rel"
  proof (cases "os_sep \<in> set rel")
    case False
    then have "posix_basename rel = rel" by (rule posix_basename_absent)
    moreover from False have "posix_basename (py ''src'' @ os_sep # rel) = rel"
      by (rule posix_basename_last)
    ultimately show ?thesis by (simp add: p)
  next
    case True
    with posix_basename_cases[of rel]
    obtain Y where Y: "rel = Y @ os_sep # posix_basename rel"
      and n: "os_sep \<notin> set (posix_basename rel)" by blast
    have "p = (py ''src'' @ os_sep # Y) @ os_sep # posix_basename rel"
      using p Y by simp
    moreover have "posix_basename ((py ''src'' @ os_sep # Y) @ os_sep # posix_basename rel)
        = posix_basename rel"
      using n by (rule posix_basename_last)
    ultimately show ?thesis by simp
  qed
  with rel show ?thesis by simp
qed

lemma to_test_path_basename:
  "posix_basename (to_test_path p) = py ''test_'' @ posix_basename p"
proof -
  let ?f = "py ''test_'' @ posix_basename (src_rel p)"
  have "\<not> prefix [os_sep] ?f" by (simp add: py_def os_sep_def)
  moreover have "py ''tests'' \<noteq> []" by (simp add: py_def)
  ultimately obtain Y where "to_test_path p = Y @ os_sep # ?f"
    unfolding to_test_path_unfold using posix_join_ends by blast
  moreover have "os_sep \<notin> set ?f"
    using posix_basename_no_sep[of "src_rel p"] by (simp add: py_def os_sep_def)
  ultimately have "posix_basename (to_test_path p) = ?f"
    by (simp add: posix_basename_last)
  then show ?thesis by (simp add: posix_basename_src_rel)
qed


lemma suffix_single: "suffix [c] xs \<longleftrightarrow> xs \<noteq> [] \<and> last xs = c"
  by (cases xs rule: rev_cases) (auto simp: suffix_def)

lemma posix_dirname_plain: "os_sep \<notin> set f \<Longrightarrow> posix_dirname f = []"
  by (simp add: posix_dirname_def py_rfind_absent)

lemma posix_dirname_nested:
  assumes "os_sep \<notin> set f" and "Y \<noteq> []" and "hd Y \<noteq> os_sep" and "last Y \<noteq> os_sep"
  shows "posix_dirname (Y @ os_sep # f) = Y"
proof -
  have i: "nat (py_rfind os_sep (Y @ os_sep # f) + 1) = Suc (length Y)"
    using assms(1) by (simp add: py_rfind_last nat_add_distrib)
  have h: "take (Suc (length Y)) (Y @ os_sep # f) = Y @ [os_sep]" by simp
  have "Y @ [os_sep] \<noteq> replicate (length (Y @ [os_sep])) os_sep"
  proof
    assume "Y @ [os_sep] = replicate (length (Y @ [os_sep])) os_sep"
    then have "set (Y @ [os_sep]) \<subseteq> {os_sep}" by (metis set_replicate_conv_if empty_subsetI subset_refl)
    with assms(2,3) show False by (cases Y) auto
  qed
  moreover have "py_rstrip_chars os_sep (Y @ [os_sep]) = Y"
  proof -
    from assms(2,4) obtain Z z where "Y = Z @ [z]" "z \<noteq> os_sep"
      by (cases Y rule: rev_cases) auto
    then show ?thesis by (simp add: py_rstrip_chars_def)
  qed
  ultimately show ?thesis
    unfolding posix_dirname_def i Let_def h by simp
qed

lemma double_sep_absent:
  assumes "\<not> py_in [os_sep, os_sep] (Y @ os_sep # f)" and "Y \<noteq> []"
  shows "last Y \<noteq> os_sep"
proof
  assume l: "last Y = os_sep"
  from assms(2) obtain Z where "Y = Z @ [os_sep]"
    using l by (cases Y rule: rev_cases) auto
  then have "Y @ os_sep # f = Z @ [os_sep, os_sep] @ f" by simp
  then have "py_in [os_sep, os_sep] (Y @ os_sep # f)"
    unfolding py_in_iff by blast
  with assms(1) show False by simp
qed

lemma to_test_path_explicit:
  assumes rel: "src_rel p = d @ f"
    and abs: "\<not> prefix [os_sep] (d @ f)"
    and dbl: "\<not> py_in [os_sep, os_sep] (d @ f)"
    and f: "os_sep \<notin> set f"
    and d: "d = [] \<or> last d = os_sep"
  shows "to_test_path p = py ''tests/'' @ d @ py ''test_'' @ f"
proof (cases "d = []")
  case True
  with rel f have "posix_dirname (src_rel p) = []" "posix_basename (src_rel p) = f"
    by (simp_all add: posix_dirname_plain posix_basename_absent)
  then show ?thesis
    unfolding to_test_path_unfold using True
    by (simp add: posix_join_def join_step_def py_def os_sep_def suffix_to_prefix)
next
  case False
  with d obtain Y where Y: "d = Y @ [os_sep]"
    by (cases d rule: rev_cases) auto
  have Yne: "Y \<noteq> []" using abs Y by (cases Y) auto
  have hdY: "hd Y \<noteq> os_sep" using abs Y Yne by (cases Y) auto
  have lastY: "last Y \<noteq> os_sep"
    using dbl Yne unfolding Y by (intro double_sep_absent[of Y f]) simp_all
  have "posix_dirname (src_rel p) = Y"
    using posix_dirname_nested[OF f Yne hdY lastY] by (simp add: rel Y)
  moreover have "posix_basename (src_rel p) = f"
    using posix_basename_last[OF f, of Y] by (simp add: rel Y)
  moreover have "\<not> prefix [os_sep] Y" using Yne hdY by (cases Y) auto
  moreover have "\<not> suffix [os_sep] (py ''tests'' @ os_sep # Y)"
    using Yne lastY by (simp add: suffix_single)
  moreover have "\<not> suffix [os_sep] (py ''tests'')"
    by (simp add: py_def os_sep_def suffix_to_prefix)
  moreover have "\<not> prefix [os_sep] (py ''test_'' @ f)" by (simp add: py_def os_sep_def)
  moreover have "py ''tests/'' = py ''tests'' @ [os_sep]" by (simp add: py_def os_sep_def)
  ultimately show ?thesis
    unfolding to_test_path_unfold by (simp add: posix_join_def join_step_def Y py_def)
qed

lemma valid_relative_src:
  assumes "valid_relative (py ''src/'' @ rel)"
  shows "\<not> prefix [os_sep] rel" and "\<not> py_in [os_sep, os_sep] rel"
proof -
  have s: "py ''src/'' = py ''src'' @ [os_sep]" by (simp add: py_def os_sep_def)
  from assms have n: "\<not> py_in [os_sep, os_sep] (py ''src/'' @ rel)"
    by (simp add: valid_relative_def)
  show "\<not> prefix [os_sep] rel"
  proof
    assume "prefix [os_sep] rel"
    then obtain r where "rel = os_sep # r" by (auto simp: prefix_def)
    then have "py ''src/'' @ rel = py ''src'' @ [os_sep, os_sep] @ r" by (simp add: s)
    then have "py_in [os_sep, os_sep] (py ''src/'' @ rel)" unfolding py_in_iff by blast
    with n show False by simp
  qed
  show "\<not> py_in [os_sep, os_sep] rel"
  proof
    assume "py_in [os_sep, os_sep] rel"
    then obtain a b where "rel = a @ [os_sep, os_sep] @ b" unfolding py_in_iff by blast
    then have "py ''src/'' @ rel = (py ''src/'' @ a) @ [os_sep, os_sep] @ b" by simp
    then have "py_in [os_sep, os_sep] (py ''src/'' @ rel)" unfolding py_in_iff by blast
    with n show False by simp
  qed
qed

lemma src_rel_src: "src_rel (py ''src/'' @ rel) = rel"
  by (simp add: src_rel_def py_def os_sep_def)

lemma src_rel_other: "\<not> prefix (py ''src/'') p \<Longrightarrow> src_rel p = p"
  by (simp add: src_rel_def py_def os_sep_def)

lemma to_test_path_src:
  assumes "valid_relative (py ''src/'' @ d @ f)" and "os_sep \<notin> set f"
    and "d = [] \<or> last d = os_sep"
  shows "to_test_path (py ''src/'' @ d @ f) = py ''tests/'' @ d @ py ''test_'' @ f"
  using to_test_path_explicit[of "py ''src/'' @ d @ f" d f]
    valid_relative_src[OF assms(1)] assms(2,3) src_rel_src[of "d @ f"]
  by simp

lemma to_test_path_flat:
  assumes "valid_relative (d @ f)" and "\<not> prefix (py ''src/'') (d @ f)"
    and "os_sep \<notin> set f" and "d = [] \<or> last d = os_sep"
  shows "to_test_path (d @ f) = py ''tests/'' @ d @ py ''test_'' @ f"
  using to_test_path_explicit[of "d @ f" d f] assms src_rel_other[OF assms(2)]
  by (simp add: valid_relative_def)

lemma path_decompose:
  "\<exists>d f. p = d @ f \<and> os_sep \<notin> set f \<and> (d = [] \<or> last d = os_sep)"
proof -
  from posix_basename_cases[of p] show ?thesis
  proof
    assume "os_sep \<notin> set p \<and> posix_basename p = p"
    then have "p = [] @ p \<and> os_sep \<notin> set p \<and> ([] = ([]::pystr) \<or> last [] = os_sep)" by simp
    then show ?thesis by blast
  next
    assume "\<exists>Y. p = Y @ os_sep # posix_basename p \<and> os_sep \<notin> set (posix_basename p)"
    then obtain Y where "p = (Y @ [os_sep]) @ posix_basename p"
      "os_sep \<notin> set (posix_basename p)" by auto
    moreover have "last (Y @ [os_sep]) = os_sep" by simp
    ultimately show ?thesis by blast
  qed
qed

lemma to_test_path_shape:
  assumes "valid_relative p"
  shows "\<exists>d f. to_test_path p = py ''tests/'' @ d @ py ''test_'' @ f \<and> os_sep \<notin> set f
           \<and> (d = [] \<or> (\<exists>Y. d = Y @ [os_sep] \<and> Y \<noteq> [] \<and> hd Y \<noteq> os_sep \<and> last Y \<noteq> os_sep))"
proof -
  obtain d f where df: "src_rel p = d @ f" "os_sep \<notin> set f" "d = [] \<or> last d = os_sep"
    using path_decompose[of "src_rel p"] by blast
  have nn: "\<not> prefix [os_sep] (src_rel p) \<and> \<not> py_in [os_sep, os_sep] (src_rel p)"
  proof (cases "prefix (py ''src/'') p")
    case True
    then obtain rel where "p = py ''src/'' @ rel" by (auto simp: prefix_def)
    with assms valid_relative_src[of rel] src_rel_src[of rel] show ?thesis by simp
  next
    case False
    with assms show ?thesis by (simp add: src_rel_other valid_relative_def)
  qed
  with df have e: "to_test_path p = py ''tests/'' @ d @ py ''test_'' @ f"
    by (intro to_test_path_explicit) simp_all
  have "d = [] \<or> (\<exists>Y. d = Y @ [os_sep] \<and> Y \<noteq> [] \<and> hd Y \<noteq> os_sep \<and> last Y \<noteq> os_sep)"
  proof (cases "d = []")
    case True
    then show ?thesis by simp
  next
    case False
    with df(3) obtain Y where Y: "d = Y @ [os_sep]"
      by (cases d rule: rev_cases) auto
    have Yne: "Y \<noteq> []" using nn df(1) Y by (cases Y) auto
    have "hd Y \<noteq> os_sep" using nn df(1) Y Yne by (cases Y) auto
    moreover have "last Y \<noteq> os_sep"
      using nn Yne unfolding df(1) Y by (intro double_sep_absent[of Y f]) simp_all
    ultimately show ?thesis using Y Yne by blast
  qed
  with e df(2) show ?thesis by blast
qed

lemma to_test_path_under_tests:
  assumes "valid_relative p"
  shows "prefix (py ''tests/'') (to_test_path p)"
  using to_test_path_shape[OF assms] by auto

lemma to_test_path_dirname:
  assumes "valid_relative p"
  shows "under_tests (posix_dirname (to_test_path p))"
proof -
  from to_test_path_shape[OF assms] obtain d f where
    e: "to_test_path p = py ''tests/'' @ d @ py ''test_'' @ f" and f: "os_sep \<notin> set f"
    and d: "d = [] \<or> (\<exists>Y. d = Y @ [os_sep] \<and> Y \<noteq> [] \<and> hd Y \<noteq> os_sep \<and> last Y \<noteq> os_sep)"
    by blast
  have g: "os_sep \<notin> set (py ''test_'' @ f)" using f by (simp add: py_def os_sep_def)
  have t: "py ''tests/'' = py ''tests'' @ [os_sep]" by (simp add: py_def os_sep_def)
  from d show ?thesis
  proof
    assume "d = []"
    then have "to_test_path p = py ''tests'' @ os_sep # (py ''test_'' @ f)"
      using e t by simp
    moreover have "posix_dirname (py ''tests'' @ os_sep # (py ''test_'' @ f)) = py ''tests''"
      using g by (rule posix_dirname_nested) (simp_all add: py_def os_sep_def)
    ultimately show ?thesis by (simp add: under_tests_def)
  next
    assume "\<exists>Y. d = Y @ [os_sep] \<and> Y \<noteq> [] \<and> hd Y \<noteq> os_sep \<and> last Y \<noteq> os_sep"
    then obtain Y where Y: "d = Y @ [os_sep]" "Y \<noteq> []" "last Y \<noteq> os_sep" by blast
    then have "to_test_path p = (py ''tests/'' @ Y) @ os_sep # (py ''test_'' @ f)"
      using e by simp
    moreover have "posix_dirname ((py ''tests/'' @ Y) @ os_sep # (py ''test_'' @ f))
        = py ''tests/'' @ Y"
      using g by (rule posix_dirname_nested) (use Y in \<open>simp_all add: py_def os_sep_def\<close>)
    ultimately show ?thesis by (simp add: under_tests_def)
  qed
qed

section \<open>Properties of discovery and of the loop\<close>

lemma credentials_present: "\<not> credentials_missing"
  by (simp add: credentials_missing_def py_all_def truthy_def endpoint_def api_key_def
      deployment_def py_def)

subsection \<open>What a print leaves unchanged\<close>

lemma py_print_cases:
  "py_print w l st = (Some e, st') \<Longrightarrow> st' = st \<and> print_line w l = Some e"
  "py_print w l st = (None, st') \<Longrightarrow> st' = st\<lparr>console := console st @ [l]\<rparr> \<and> print_line w l = None"
  by (auto simp: py_print_def split: option.splits)

lemma py_print_fs_log: "fs_log (snd (py_print w l st)) = fs_log st"
  by (simp add: py_print_def split: option.splits)

lemma print_all_fs_log: "fs_log (snd (print_all w ls st)) = fs_log st"
proof (induction ls arbitrary: st)
  case Nil
  then show ?case by simp
next
  case (Cons l ls)
  show ?case
  proof (cases "print_line w l")
    case None
    then show ?thesis using Cons.IH by (simp add: py_print_def)
  next
    case (Some e)
    then show ?thesis by (simp add: py_print_def)
  qed
qed

lemma handle_failure_fs_log: "fs_log (snd (handle_failure w e st)) = fs_log st"
  by (simp add: handle_failure_def py_print_def split: option.splits)

lemma process_file_fs_log:
  "set (fs_log (snd (process_file w p st))) \<subseteq> set (fs_log st) \<union> set (snd (try_body w p))"
proof (cases "print_line w (ProcessingMsg p)")
  case (Some e)
  then show ?thesis by (simp add: process_file_def py_print_def)
next
  case None
  obtain r evs where tb: "try_body w p = (r, evs)" by (cases "try_body w p") auto
  show ?thesis
  proof (cases r)
    case (Inl e)
    with None tb show ?thesis
      by (simp add: process_file_def py_print_def handle_failure_fs_log)
  next
    case (Inr tc)
    obtain t c where "tc = (t, c)" by (cases tc) auto
    with Inr None tb show ?thesis
      by (cases "print_line w (CreatedMsg t)")
         (simp_all add: process_file_def py_print_def handle_failure_fs_log)
  qed
qed

lemma process_files_fs_log:
  "set (fs_log (snd (process_files w fs st)))
     \<subseteq> set (fs_log st) \<union> (\<Union>p\<in>set fs. set (snd (try_body w p)))"
proof (induction fs arbitrary: st)
  case Nil
  then show ?case by simp
next
  case (Cons p fs)
  obtain r st' where pf: "process_file w p st = (r, st')" by (cases "process_file w p st") auto
  have s: "set (fs_log st') \<subseteq> set (fs_log st) \<union> set (snd (try_body w p))"
    using process_file_fs_log[of w p st] pf by simp
  show ?case
  proof (cases r)
    case (Some e)
    with pf s show ?thesis by auto
  next
    case None
    with pf have "process_files w (p # fs) st = process_files w fs st'" by simp
    with Cons.IH[of st'] s show ?thesis by auto
  qed
qed

lemma uncaught_fields:
  "final (uncaught st) = st" "exit_code (uncaught st) = 1" "exit_at (uncaught st) = ExitUncaught"
  by (simp_all add: uncaught_def)

lemma connect_failed_fs_log: "fs_log (final (connect_failed w e st)) = fs_log st"
  by (simp add: connect_failed_def py_print_def uncaught_def split: option.splits)

lemma run_batch_fs_log:
  assumes "fs_log st0 = []"
  shows "set (fs_log (final (run_batch w st0))) \<subseteq> (\<Union>p\<in>set (discover w). set (snd (try_body w p)))"
proof (cases "discover w = []")
  case True
  then show ?thesis
    using print_all_fs_log[of w "[NoFilesWarning, NoFilesHint]" st0] assms
    by (cases "print_all w [NoFilesWarning, NoFilesHint] st0")
       (auto simp: run_batch_def uncaught_def split: option.splits)
next
  case False
  let ?found = "FoundMsg (length (discover w))"
  obtain r1 st1 where p1: "py_print w ?found st0 = (r1, st1)"
    by (cases "py_print w ?found st0") auto
  have f1: "fs_log st1 = []" using py_print_fs_log[of w ?found st0] p1 assms by simp
  show ?thesis
  proof (cases r1)
    case (Some e)
    with False p1 f1 show ?thesis by (simp add: run_batch_def uncaught_def)
  next
    case None
    obtain r2 st2 where p2: "process_files w (sort (discover w)) st1 = (r2, st2)"
      by (cases "process_files w (sort (discover w)) st1") auto
    have f2: "set (fs_log st2) \<subseteq> (\<Union>p\<in>set (discover w). set (snd (try_body w p)))"
      using process_files_fs_log[of w "sort (discover w)" st1] p2 f1 by simp
    show ?thesis
    proof (cases r2)
      case (Some e)
      with None False p1 p2 f2 show ?thesis by (simp add: run_batch_def uncaught_def)
    next
      case n2: None
      obtain r3 st3 where p3: "print_all w (summary_lines st2) st2 = (r3, st3)"
        by (cases "print_all w (summary_lines st2) st2") auto
      have f3: "fs_log st3 = fs_log st2"
        using print_all_fs_log[of w "summary_lines st2" st2] p3 by simp
      have f4: "fs_log (snd (py_print w CompleteMsg st3)) = fs_log st2"
        using py_print_fs_log[of w CompleteMsg st3] f3 by simp
      from None n2 False p1 p2 p3 f2 f3 f4 show ?thesis
        by (cases "py_print w CompleteMsg st3")
           (auto simp: run_batch_def uncaught_def Let_def split: option.splits)
    qed
  qed
qed

lemma main_fs_log_subset:
  "set (fs_log (final (main w))) \<subseteq> (\<Union>p\<in>set (discover w). set (snd (try_body w p)))"
proof (cases "client_init w")
  case (Some e)
  then show ?thesis
    by (simp add: main_def credentials_present connect_failed_fs_log)
next
  case None
  let ?st0 = "\<lparr>success_count = 0, error_count = 0, fs_log = [], console = []\<rparr>"
  show ?thesis
  proof (cases "print_line w ConnectedMsg")
    case (Some e)
    with None show ?thesis
      by (simp add: main_def credentials_present py_print_def connect_failed_fs_log)
  next
    case n: None
    have "fs_log (?st0\<lparr>console := console ?st0 @ [ConnectedMsg]\<rparr>) = []" by simp
    from run_batch_fs_log[OF this] None n show ?thesis
      by (simp add: main_def credentials_present py_print_def)
  qed
qed

subsection \<open>A run on a console that accepts every line\<close>
















subsection \<open>Where the run writes\<close>

lemma try_body_targets:
  assumes "ev \<in> set (snd (try_body w p))"
  shows "fs_target ev = to_test_path p \<or> ev = Makedirs (posix_dirname (to_test_path p))"
  using assms
  by (auto simp: try_body_def Let_def split: sum.splits option.splits)

lemma try_body_under_tests:
  assumes "valid_relative p" and "ev \<in> set (snd (try_body w p))"
  shows "under_tests (fs_target ev)"
proof -
  from try_body_targets[OF assms(2)] show ?thesis
  proof
    assume "fs_target ev = to_test_path p"
    with to_test_path_under_tests[OF assms(1)] show ?thesis by (simp add: under_tests_def)
  next
    assume "ev = Makedirs (posix_dirname (to_test_path p))"
    with to_test_path_dirname[OF assms(1)] show ?thesis by simp
  qed
qed

lemma under_tests_first_segment:
  assumes "under_tests t"
  shows "py ''tests'' \<in> set (py_split [os_sep] t)"
proof -
  have n: "\<not> py_in [os_sep] (py ''tests'')" by (simp add: py_def os_sep_def)
  from assms consider "t = py ''tests''" | x where "t = py ''tests/'' @ x"
    by (auto simp: under_tests_def prefix_def)
  then show ?thesis
  proof cases
    case 1
    with n show ?thesis by (simp add: py_split_absent)
  next
    case 2
    then have "t = py ''tests'' @ [os_sep] @ x" by (simp add: py_def os_sep_def)
    moreover have "no_earlier [os_sep] (py ''tests'')" using n by (simp add: no_earlier_def)
    ultimately have "py_split [os_sep] t = py ''tests'' # py_split [os_sep] x"
      using py_split_first[of "[os_sep]" "py ''tests''" x] by simp
    then show ?thesis by simp
  qed
qed

lemma should_skip_iff:
  "should_skip path \<longleftrightarrow>
     (\<exists>seg\<in>set (py_split [os_sep] path). prefix (py ''.'') seg)
     \<or> (\<exists>seg\<in>set (py_split [os_sep] path). seg \<in> set excluded_dirs)
     \<or> prefix (py ''test_'') (posix_basename path)"
  by (auto simp: should_skip_def Let_def list_ex_iff)

lemma under_tests_skipped: "under_tests t \<Longrightarrow> should_skip t"
  using under_tests_first_segment[of t]
  unfolding should_skip_iff by (auto simp: excluded_dirs_def)

lemma discover_not_skipped: "p \<in> set (discover w) \<Longrightarrow> \<not> should_skip p"
  by (simp add: discover_def)

lemma discover_candidates: "p \<in> set (discover w) \<Longrightarrow> p \<in> set (candidates w)"
  by (simp add: discover_def)









subsection \<open>Independence from the iteration order of the candidate set\<close>












subsection \<open>The files taken up form an initial segment of the sorted list\<close>










subsection \<open>Definitions unfolded to evaluate a run\<close>

lemmas eval_defs =
  py_def os_sep_def extsep_def discover_def candidates_def should_skip_def excluded_dirs_def
  posix_basename_def posix_dirname_def posix_split_def posix_splitext_def posix_join_def
  join_step_def to_test_path_def py_rstrip_chars_def suffix_to_prefix Let_def
  try_body_def generate_unit_test_def outcome_def py_index_def extract_code_from_response_def
  fence_def fence_python_def py_strip_def py_isspace_def skip_leading_dots.simps


section \<open>The claims on response extraction\<close>

text \<open>
  Claim C3, as stated, fails on a tagged block whose closing fence is directly
  followed by a backquote and \<open>python\<close>: the text is split on \<open>```python\<close> first, so
  in \<open>x```pythoncode````python\<close> the second tagged marker is found one backquote
  into the closing fence, and the result is \<open>code`\<close>, not the interior \<open>code\<close>.
\<close>

theorem extract_code_backquote_counterexample:
  "no_earlier fence_python (py ''x'') \<and> no_earlier fence (py ''code'')
   \<and> extract_code_from_response (py ''x'' @ fence_python @ py ''code'' @ fence @ py ''`python'')
       = Inr (py ''code`'')
   \<and> py_strip (py ''code'') \<noteq> py ''code`''"
proof -
  have "no_earlier fence_python (py ''x'')"
    by (simp add: no_earlier_def fence_python_def py_def)
  moreover have "no_earlier fence (py ''code'')"
    by (simp add: no_earlier_def fence_def py_def)
  moreover have "extract_code_from_response
      (py ''x'' @ fence_python @ py ''code'' @ fence @ py ''`python'') = Inr (py ''code`'')"
    by (simp add: eval_defs)
  moreover have "py_strip (py ''code'') \<noteq> py ''code`''"
    by (simp add: eval_defs)
  ultimately show ?thesis by simp
qed

text \<open>
  Claim C3, amended. \<open>extract_code_from_response\<close> returns a value for every input
  string (no index it takes is out of range). When the input holds a language-tagged
  fenced block, that is \<open>pre\<close>, the marker \<open>```python\<close>, an interior \<open>body\<close>, the
  closing fence \<open>```\<close> and any text \<open>post\<close>, where the written marker is the first
  tagged marker, the written closing fence is the first fence after it, and \<open>post\<close>
  begins neither with \<open>`python\<close> nor with \<open>``python\<close> (no tagged marker starts on the
  second or third backquote of the closing fence), the result is the trimmed interior.
  Without any fence marker the result is the trimmed input, the empty string gives the
  empty string, and the response of end-to-end scenario 2 gives \<open>def test_x(): pass\<close>.
\<close>

theorem extract_code_contract:
  "(\<exists>code. extract_code_from_response content = Inr code)
   \<and> (no_earlier fence_python pre \<and> no_earlier fence body
        \<and> \<not> prefix (py ''`python'') post \<and> \<not> prefix (py ''``python'') post
      \<longrightarrow> extract_code_from_response (pre @ fence_python @ body @ fence @ post)
            = Inr (py_strip body))
   \<and> (\<not> py_in fence content
      \<longrightarrow> extract_code_from_response content = Inr (py_strip content))
   \<and> extract_code_from_response [] = Inr []
   \<and> extract_code_from_response
        (py (''Here:'' @ [CHR 0x0A] @ ''```python'' @ [CHR 0x0A] @ ''def test_x(): pass''
             @ [CHR 0x0A] @ ''```''))
      = Inr (py ''def test_x(): pass'')"
proof -
  have "extract_code_from_response [] = Inr []"
    by (simp add: extract_code_from_response_def fence_def fence_python_def py_def
        py_strip_def)
  moreover have "extract_code_from_response
        (py (''Here:'' @ [CHR 0x0A] @ ''```python'' @ [CHR 0x0A] @ ''def test_x(): pass''
             @ [CHR 0x0A] @ ''```''))
      = Inr (py ''def test_x(): pass'')"
    by code_simp
  ultimately show ?thesis
    using extract_total extract_tagged_block extract_plain by blast
qed

theorem extract_code_contract_witness:
  "no_earlier fence_python (py ''Here: '') \<and> no_earlier fence (py '' x = 1 '')
   \<and> \<not> prefix (py ''`python'') (py '' done'') \<and> \<not> prefix (py ''``python'') (py '' done'')
   \<and> \<not> py_in fence (py '' plain text '')
   \<and> extract_code_from_response (py ''Here: ```python x = 1 ``` done'') = Inr (py ''x = 1'')
   \<and> extract_code_from_response (py '' plain text '') = Inr (py ''plain text'')"
  using extract_code_contract[of "py '' plain text ''" "py ''Here: ''" "py '' x = 1 ''"
      "py '' done''"]
  by (simp add: no_earlier_def fence_def fence_python_def py_def py_strip_def py_isspace_def)

text \<open>
  Claim C9. When the input holds the marker \<open>```python\<close> (the written one being the
  first) and no fence marker after it, the result is the trimmed text after the
  marker, not the trimmed whole input: \<open>Note: ```python x = 1\<close> gives \<open>x = 1\<close>.
\<close>

theorem extract_code_unclosed:
  "(no_earlier fence_python pre \<and> \<not> py_in fence rest
      \<longrightarrow> extract_code_from_response (pre @ fence_python @ rest) = Inr (py_strip rest))
   \<and> extract_code_from_response (py ''Note: ```python x = 1'') = Inr (py ''x = 1'')
   \<and> py_strip (py ''Note: ```python x = 1'') \<noteq> py ''x = 1''"
proof -
  have "extract_code_from_response (py ''Note: ```python x = 1'') = Inr (py ''x = 1'')"
    by code_simp
  moreover have "py_strip (py ''Note: ```python x = 1'') \<noteq> py ''x = 1''"
    by (simp add: py_def py_strip_def py_isspace_def)
  ultimately show ?thesis
    using extract_unclosed by blast
qed

theorem extract_code_unclosed_witness:
  "no_earlier fence_python (py ''Tests: '') \<and> \<not> py_in fence (py '' assert f() '')
   \<and> extract_code_from_response (py ''Tests: ```python assert f() '') = Inr (py ''assert f()'')"
  using extract_code_unclosed[of "py ''Tests: ''" "py '' assert f() ''"]
  by (simp add: no_earlier_def fence_def fence_python_def py_def py_strip_def py_isspace_def)

section \<open>The claims on path mapping\<close>

text \<open>
  Claim C4. For every valid relative source path that begins with \<open>src/\<close>, the mapped
  path begins with the destination root \<open>tests/\<close>, and the prefix is stripped exactly
  once: with the path written as \<open>src/\<close>, a directory part \<open>d\<close> (empty or ending in
  the separator) and a file name \<open>f\<close>, the result is \<open>tests/\<close>, \<open>d\<close>, \<open>test_\<close>, \<open>f\<close>,
  whatever \<open>d\<close> begins with. A valid relative path that does not begin with \<open>src/\<close> is
  used as it is under \<open>tests/\<close>, and \<open>src/pkg/mod.py\<close> maps to
  \<open>tests/pkg/test_mod.py\<close>.
\<close>

theorem to_test_path_strips_src:
  "(valid_relative p \<and> prefix (py ''src/'') p \<longrightarrow> prefix (py ''tests/'') (to_test_path p))
   \<and> (valid_relative (py ''src/'' @ d @ f) \<and> os_sep \<notin> set f \<and> (d = [] \<or> last d = os_sep)
      \<longrightarrow> to_test_path (py ''src/'' @ d @ f) = py ''tests/'' @ d @ py ''test_'' @ f)
   \<and> (valid_relative (d @ f) \<and> \<not> prefix (py ''src/'') (d @ f) \<and> os_sep \<notin> set f
        \<and> (d = [] \<or> last d = os_sep)
      \<longrightarrow> to_test_path (d @ f) = py ''tests/'' @ d @ py ''test_'' @ f)
   \<and> to_test_path (py ''src/pkg/mod.py'') = py ''tests/pkg/test_mod.py''"
proof -
  have "to_test_path (py ''src/pkg/mod.py'') = py ''tests/pkg/test_mod.py''"
    by code_simp
  then show ?thesis
    using to_test_path_under_tests to_test_path_src to_test_path_flat by blast
qed

theorem to_test_path_strips_src_witness:
  "valid_relative (py ''src/src/pkg/mod.py'') \<and> prefix (py ''src/'') (py ''src/src/pkg/mod.py'')
   \<and> os_sep \<notin> set (py ''mod.py'') \<and> last (py ''src/pkg/'') = os_sep
   \<and> valid_relative (py ''src/pkg/mod.py'') \<and> \<not> prefix (py ''src/'') (py ''pkg/mod.py'')
   \<and> prefix (py ''tests/'') (to_test_path (py ''src/src/pkg/mod.py''))
   \<and> to_test_path (py ''src/src/pkg/mod.py'') = py ''tests/src/pkg/test_mod.py''
   \<and> to_test_path (py ''src/pkg/mod.py'') = py ''tests/pkg/test_mod.py''"
proof -
  have h: "valid_relative (py ''src/src/pkg/mod.py'')"
    "prefix (py ''src/'') (py ''src/src/pkg/mod.py'')"
    "os_sep \<notin> set (py ''mod.py'')" "last (py ''src/pkg/'') = os_sep"
    "valid_relative (py ''src/pkg/mod.py'')" "\<not> prefix (py ''src/'') (py ''pkg/mod.py'')"
    by (simp_all add: valid_relative_def py_def os_sep_def suffix_to_prefix)
  have e: "py ''src/src/pkg/mod.py'' = py ''src/'' @ py ''src/pkg/'' @ py ''mod.py''"
    "py ''tests/src/pkg/test_mod.py'' = py ''tests/'' @ py ''src/pkg/'' @ py ''test_'' @ py ''mod.py''"
    by (simp_all add: py_def)
  from h e to_test_path_strips_src[of "py ''src/src/pkg/mod.py''" "py ''src/pkg/''" "py ''mod.py''"]
  show ?thesis by simp
qed

text \<open>
  Claim C5. For a file name \<open>name.ext\<close> in any directory, the base name of the mapped
  path is \<open>test_name.ext\<close>; more generally the base name of the mapped path is \<open>test_\<close>
  followed by the base name of the source path. The mapping is a function of its
  argument alone, so mapping the same path again gives the same result; it is not
  idempotent, a mapped path maps further: \<open>src/mod.py\<close> gives \<open>tests/test_mod.py\<close>,
  which gives \<open>tests/tests/test_test_mod.py\<close>.
\<close>

theorem to_test_path_basename_name_ext:
  "posix_basename (to_test_path p) = py ''test_'' @ posix_basename p
   \<and> (os_sep \<notin> set name \<and> os_sep \<notin> set ext \<and> (d = [] \<or> last d = os_sep)
      \<longrightarrow> posix_basename (to_test_path (d @ name @ py ''.'' @ ext))
            = py ''test_'' @ name @ py ''.'' @ ext)
   \<and> to_test_path (to_test_path (py ''src/mod.py'')) = py ''tests/tests/test_test_mod.py''"
proof -
  have "posix_basename (d @ name @ py ''.'' @ ext) = name @ py ''.'' @ ext"
    if "os_sep \<notin> set name" "os_sep \<notin> set ext" "d = [] \<or> last d = os_sep"
  proof -
    have n: "os_sep \<notin> set (name @ py ''.'' @ ext)"
      using that by (simp add: py_def os_sep_def)
    show ?thesis
    proof (cases "d = []")
      case True
      with n show ?thesis by (simp add: posix_basename_absent)
    next
      case False
      with that(3) obtain Y where "d = Y @ [os_sep]" by (cases d rule: rev_cases) auto
      with posix_basename_last[OF n, of Y] show ?thesis by simp
    qed
  qed
  moreover have "to_test_path (to_test_path (py ''src/mod.py'')) = py ''tests/tests/test_test_mod.py''"
    by code_simp
  ultimately show ?thesis
    using to_test_path_basename by simp
qed

theorem to_test_path_basename_name_ext_witness:
  "os_sep \<notin> set (py ''mod'') \<and> os_sep \<notin> set (py ''py'') \<and> last (py ''src/pkg/'') = os_sep
   \<and> posix_basename (to_test_path (py ''src/pkg/mod.py'')) = py ''test_mod.py''"
proof -
  have h: "os_sep \<notin> set (py ''mod'')" "os_sep \<notin> set (py ''py'')" "last (py ''src/pkg/'') = os_sep"
    by (simp_all add: py_def os_sep_def)
  have e: "py ''src/pkg/'' @ py ''mod'' @ py ''.'' @ py ''py'' = py ''src/pkg/mod.py''"
    "py ''test_'' @ py ''mod'' @ py ''.'' @ py ''py'' = py ''test_mod.py''"
    by (simp_all add: py_def)
  from h to_test_path_basename_name_ext[of "py ''src/pkg/mod.py''" "py ''mod''" "py ''py''"
      "py ''src/pkg/''"]
  have "posix_basename (to_test_path (py ''src/pkg/'' @ py ''mod'' @ py ''.'' @ py ''py''))
          = py ''test_'' @ py ''mod'' @ py ''.'' @ py ''py''"
    by blast
  with h e show ?thesis by simp
qed

section \<open>The claims on discovery and on the run\<close>







text \<open>
  Claim C6. No discovered path has a segment named \<open>tests\<close>, \<open>venv\<close>, \<open>.venv\<close>,
  \<open>env\<close>, \<open>.env\<close>, \<open>build\<close>, \<open>dist\<close> or \<open>__pycache__\<close>, nor a segment that starts with
  a dot, nor a base name that starts with \<open>test_\<close>. The filter runs on the union of
  the three searches, so it does not matter which of them produced the candidate.
\<close>

theorem discovery_excludes:
  "p \<in> set (discover w) \<longrightarrow>
     (\<forall>seg\<in>set (py_split [os_sep] p).
        seg \<notin> {py ''tests'', py ''venv'', py ''.venv'', py ''env'', py ''.env'', py ''build'',
                py ''dist'', py ''__pycache__''}
        \<and> \<not> prefix (py ''.'') seg)
     \<and> \<not> prefix (py ''test_'') (posix_basename p)"
proof
  assume "p \<in> set (discover w)"
  then have "\<not> should_skip p" by (rule discover_not_skipped)
  then show "(\<forall>seg\<in>set (py_split [os_sep] p).
        seg \<notin> {py ''tests'', py ''venv'', py ''.venv'', py ''env'', py ''.env'', py ''build'',
                py ''dist'', py ''__pycache__''}
        \<and> \<not> prefix (py ''.'') seg)
     \<and> \<not> prefix (py ''test_'') (posix_basename p)"
    unfolding should_skip_iff by (simp add: excluded_dirs_def)
qed

theorem discovery_excludes_witness:
  "py ''src/util.py'' \<in> set (discover scenario_world)
   \<and> py_split [os_sep] (py ''src/util.py'') = [py ''src'', py ''util.py'']
   \<and> \<not> prefix (py ''test_'') (posix_basename (py ''src/util.py''))
   \<and> py ''tests/test_util.py'' \<in> set (candidates scenario_world)
   \<and> py ''tests/test_util.py'' \<notin> set (discover scenario_world)
   \<and> py ''build/lib/calc.py'' \<notin> set (discover scenario_world)
   \<and> py ''src/test_calc.py'' \<notin> set (discover scenario_world)"
proof -
  have d: "py ''src/util.py'' \<in> set (discover scenario_world)" by code_simp
  have s: "py_split [os_sep] (py ''src/util.py'') = [py ''src'', py ''util.py'']" by code_simp
  have c: "py ''tests/test_util.py'' \<in> set (candidates scenario_world)" by code_simp
  have n: "py ''tests/test_util.py'' \<notin> set (discover scenario_world)"
    "py ''build/lib/calc.py'' \<notin> set (discover scenario_world)"
    "py ''src/test_calc.py'' \<notin> set (discover scenario_world)"
    by code_simp+
  from d discovery_excludes[of "py ''src/util.py''" scenario_world]
  have "\<not> prefix (py ''test_'') (posix_basename (py ''src/util.py''))" by blast
  with d s c n show ?thesis by simp
qed

text \<open>
  Claim C7. When the candidates are valid relative paths, every filesystem call of
  the run that changes something (creating directories, opening for writing, writing)
  targets \<open>tests\<close> or a path under \<open>tests/\<close>, and no such target is a discovered
  source file, since discovery drops every path with a segment \<open>tests\<close>. The run makes
  no call that removes a file.
\<close>

theorem writes_under_tests:
  "globs_relative w \<longrightarrow>
     (\<forall>ev\<in>set (fs_log (final (main w))).
        under_tests (fs_target ev) \<and> fs_target ev \<notin> set (discover w))"
proof (intro impI ballI)
  fix ev
  assume g: "globs_relative w" and ev: "ev \<in> set (fs_log (final (main w)))"
  from ev main_fs_log_subset[of w] obtain p
    where p: "p \<in> set (discover w)" and e: "ev \<in> set (snd (try_body w p))"
    by blast
  from p have "p \<in> set (candidates w)" by (rule discover_candidates)
  with g have "valid_relative p" by (simp add: globs_relative_def list_all_iff)
  then have u: "under_tests (fs_target ev)" using e by (rule try_body_under_tests)
  then have "should_skip (fs_target ev)" by (rule under_tests_skipped)
  then have "fs_target ev \<notin> set (discover w)" using discover_not_skipped by blast
  with u show "under_tests (fs_target ev) \<and> fs_target ev \<notin> set (discover w)" by simp
qed

theorem writes_under_tests_witness:
  "globs_relative scenario_world
   \<and> fs_log (final (main scenario_world))
       = [Makedirs (py ''tests''), OpenW (py ''tests/test_util.py''),
          WriteText (py ''tests/test_util.py'') (py ''pass'')]
   \<and> under_tests (py ''tests/test_util.py'')
   \<and> py ''tests/test_util.py'' \<notin> set (discover scenario_world)"
proof -
  have g: "globs_relative scenario_world" by code_simp
  have l: "fs_log (final (main scenario_world))
       = [Makedirs (py ''tests''), OpenW (py ''tests/test_util.py''),
          WriteText (py ''tests/test_util.py'') (py ''pass'')]" by code_simp
  then have "OpenW (py ''tests/test_util.py'') \<in> set (fs_log (final (main scenario_world)))"
    by simp
  with g writes_under_tests[of scenario_world]
  have "under_tests (fs_target (OpenW (py ''tests/test_util.py'')))
        \<and> fs_target (OpenW (py ''tests/test_util.py'')) \<notin> set (discover scenario_world)"
    by blast
  with g l show ?thesis by simp
qed




text \<open>
  Claim C10. The three literals are non-empty, so the check of line 88 is false and no
  run ends at the exit for missing credentials.
\<close>

theorem missing_credentials_unreachable:
  "\<not> credentials_missing \<and> exit_at (main w) \<noteq> ExitMissingCredentials"
proof -
  have u: "exit_at (uncaught st) \<noteq> ExitMissingCredentials" for st
    by (simp add: uncaught_def)
  have cf: "exit_at (connect_failed w e st) \<noteq> ExitMissingCredentials" for e st
    by (simp add: connect_failed_def uncaught_def split: prod.splits option.splits)
  have rb: "exit_at (run_batch w st) \<noteq> ExitMissingCredentials" for st
    by (simp add: run_batch_def uncaught_def Let_def split: prod.splits option.splits)
  have "exit_at (main w) \<noteq> ExitMissingCredentials"
    using cf rb by (simp add: main_def credentials_present Let_def split: prod.splits option.splits)
  with credentials_present show ?thesis by simp
qed

end
